theory Spec2Isabelle
  imports Complex_Main "HOL-Library.Sublist"
begin

section \<open>CHDManUI: strings\<close>

text \<open>
  A Python \<open>str\<close> is modelled as a \<open>string\<close> whose characters are the code points
  below 256 (the tool's output and the paths of the examples are ASCII).
  \<open>py_lower\<close> is \<open>str.lower()\<close> on that range: the letters A-Z and the Latin-1
  capitals 0xC0-0xDE (without the multiplication sign 0xD7) move up by 32.
\<close>

definition py_lower_char :: "char \<Rightarrow> char" where
  "py_lower_char c =
     (let n = (of_char c :: nat)
      in if (65 \<le> n \<and> n \<le> 90) \<or> (192 \<le> n \<and> n \<le> 222 \<and> n \<noteq> 215)
         then char_of (n + 32) else c)"

definition py_lower :: "string \<Rightarrow> string" where
  "py_lower s = map py_lower_char s"

section \<open>Subcommand selection\<close>

text \<open>
  \<^verbatim>\<open>
  def choose_subcommand(system: str, input_path: str) -> str:
      if "PlayStation 2" in system and input_path.lower().endswith(".iso"):
          return "createdvd"
      return "createcd"
  \<close>
  Python's \<open>a in b\<close> on strings is the contiguous-substring test (\<open>sublist\<close>),
  \<open>endswith\<close> is \<open>suffix\<close>.
\<close>

definition choose_subcommand :: "string \<Rightarrow> string \<Rightarrow> string" where
  "choose_subcommand system input_path =
     (if sublist ''PlayStation 2'' system \<and> suffix ''.iso'' (py_lower input_path)
      then ''createdvd'' else ''createcd'')"

section \<open>Floating-point numbers\<close>

text \<open>
  A Python \<open>float\<close> is an IEEE binary64 value: a finite number (modelled by the rational
  it denotes), an infinity or NaN. The comparisons are Python's: every comparison with
  NaN is false.
\<close>

datatype pyfloat = Fin rat | PosInf | NegInf | NaN

fun fl_lt :: "pyfloat \<Rightarrow> pyfloat \<Rightarrow> bool" where
  "fl_lt NaN _ = False"
| "fl_lt _ NaN = False"
| "fl_lt (Fin a) (Fin b) = (a < b)"
| "fl_lt PosInf _ = False"
| "fl_lt _ PosInf = True"
| "fl_lt _ NegInf = False"
| "fl_lt NegInf _ = True"

fun fl_le :: "pyfloat \<Rightarrow> pyfloat \<Rightarrow> bool" where
  "fl_le NaN _ = False"
| "fl_le _ NaN = False"
| "fl_le (Fin a) (Fin b) = (a \<le> b)"
| "fl_le NegInf _ = True"
| "fl_le _ PosInf = True"
| "fl_le PosInf _ = False"
| "fl_le _ NegInf = False"

text \<open>
  The builtins \<open>min(a, b)\<close> and \<open>max(a, b)\<close> keep their first argument unless the
  second is strictly smaller (greater).
\<close>

definition py_min :: "pyfloat \<Rightarrow> pyfloat \<Rightarrow> pyfloat" where
  "py_min a b = (if fl_lt b a then b else a)"

definition py_max :: "pyfloat \<Rightarrow> pyfloat \<Rightarrow> pyfloat" where
  "py_max a b = (if fl_lt a b then b else a)"

definition round_half_even :: "rat \<Rightarrow> int" where
  "round_half_even x =
     (let f = \<lfloor>x\<rfloor>; d = x - of_int f
      in if d < 1 / 2 then f else if 1 / 2 < d then f + 1
         else if even f then f else f + 1)"

text \<open>\<open>round(x)\<close> of a float: to the nearest integer, ties to even; it raises on
  an infinity or NaN (\<open>None\<close>).\<close>

fun py_round :: "pyfloat \<Rightarrow> int option" where
  "py_round (Fin x) = Some (round_half_even x)"
| "py_round _ = None"

text \<open>
  \<open>float(s)\<close> of a decimal literal is the binary64 number nearest to its value, ties
  to the even mantissa. \<open>binade e x\<close> searches downwards from \<open>e\<close> for the exponent
  of \<open>x\<close> (not below the subnormal range); \<open>round_binary64\<close> rounds to a multiple
  of the unit in the last place of that binade. It is used below \<open>1000\<close> only, so there is
  no overflow.
\<close>

function binade :: "int \<Rightarrow> rat \<Rightarrow> int" where
  "binade e x = (if e \<le> - 1022 \<or> 2 powi e \<le> x then e else binade (e - 1) x)"
  by pat_completeness auto
termination
  by (relation "measure (\<lambda>(e, x). nat (e + 1022))") auto

definition round_binary64 :: "rat \<Rightarrow> rat" where
  "round_binary64 x =
     (if x \<le> 0 then 0
      else let q = 2 powi (binade 9 x - 52) in of_int (round_half_even (x / q)) * q)"

definition is_digit :: "char \<Rightarrow> bool" where
  "is_digit c = (let n = (of_char c :: nat) in 48 \<le> n \<and> n \<le> 57)"

text \<open>\<open>\s\<close> of a \<open>str\<close> pattern, below 256: tab to carriage return, the separators
  0x1C-0x1F, the space, NEL and the no-break space.\<close>

definition is_space :: "char \<Rightarrow> bool" where
  "is_space c =
     (let n = (of_char c :: nat)
      in (9 \<le> n \<and> n \<le> 13) \<or> (28 \<le> n \<and> n \<le> 32) \<or> n = 133 \<or> n = 160)"

definition digits_val :: "string \<Rightarrow> nat" where
  "digits_val ds = foldl (\<lambda>acc c. 10 * acc + (of_char c - 48)) 0 ds"

definition dec_value :: "string \<Rightarrow> rat" where
  "dec_value g =
     (let ip = takeWhile (\<lambda>c. c \<noteq> CHR ''.'') g; fp = drop (length ip + 1) g
      in of_nat (digits_val ip) + of_nat (digits_val fp) / 10 ^ length fp)"

text \<open>\<open>float(m.group(1))\<close>: the group is digits with an optional fraction, so the
  conversion never raises and the \<open>except ValueError\<close> of the source is dead.\<close>

definition py_float :: "string \<Rightarrow> pyfloat" where
  "py_float g = Fin (round_binary64 (dec_value g))"

section \<open>The percentage pattern\<close>

text \<open>
  \<^verbatim>\<open>re.finditer(r"(\d{1,3}(?:\.\d+)?)\s*%", buffer)\<close>

  \<open>match_at s\<close> is the match of the pattern at the start of \<open>s\<close>: group 1 and the
  length of the whole match. The pattern is deterministic: after at most three digits,
  an optional fraction and blanks, the next character must be the percent sign, and
  giving back a digit or a blank leaves a character that nothing after it accepts. So
  the greedy choice is the only one (lemma \<open>match_at_iff\<close> below states this against
  the language of the pattern).
\<close>

definition match_at :: "string \<Rightarrow> (string \<times> nat) option" where
  "match_at s =
     (let ds = take 3 (takeWhile is_digit s);
          r1 = drop (length ds) s
      in if ds = [] then None
         else
           let fr = (case r1 of
                       [] \<Rightarrow> []
                     | c # r \<Rightarrow>
                         if c = CHR ''.'' \<and> takeWhile is_digit r \<noteq> []
                         then c # takeWhile is_digit r else []);
               r2 = drop (length fr) r1;
               ws = takeWhile is_space r2;
               r3 = drop (length ws) r2
           in (case r3 of
                 [] \<Rightarrow> None
               | c # _ \<Rightarrow>
                   if c = CHR ''%''
                   then Some (ds @ fr, length ds + length fr + length ws + 1)
                   else None))"

text \<open>
  \<open>finditer pos s\<close>: the matches of the scan of \<open>s\<close>, left to right and without overlap,
  each as \<open>(m.start(), m.end(), m.group(1))\<close>; \<open>pos\<close> is the position of the head of
  \<open>s\<close> in the scanned text.
\<close>

function finditer :: "nat \<Rightarrow> string \<Rightarrow> (nat \<times> nat \<times> string) list" where
  "finditer pos [] = []"
| "finditer pos (c # cs) =
     (case match_at (c # cs) of
        None \<Rightarrow> finditer (Suc pos) cs
      | Some (g, n) \<Rightarrow> (pos, pos + n, g) # finditer (pos + n) (drop (n - 1) cs))"
  by pat_completeness auto
termination
  by (relation "measure (\<lambda>(pos, s). length s)") auto

text \<open>The language of the pattern: \<open>re_lang g m\<close> says that the text \<open>m\<close> is matched
  by the whole pattern with group 1 equal to \<open>g\<close>.\<close>

definition re_lang :: "string \<Rightarrow> string \<Rightarrow> bool" where
  "re_lang g m \<longleftrightarrow>
     (\<exists>ds fr ws. m = ds @ fr @ ws @ ''%'' \<and> g = ds @ fr
        \<and> ds \<noteq> [] \<and> length ds \<le> 3 \<and> list_all is_digit ds
        \<and> (fr = [] \<or> (\<exists>fd. fr = CHR ''.'' # fd \<and> fd \<noteq> [] \<and> list_all is_digit fd))
        \<and> list_all is_space ws)"

section \<open>The user interface as a trace of events\<close>

text \<open>
  The program acts on the outside through message boxes, the Tk variables and widgets,
  the child process and the log file. Each such action is an event; a function of the
  model returns the events it issues, in program order. Updates that the source hands to
  the main thread with \<open>root.after(0, ...)\<close> are recorded at the point where they are
  issued (the window is assumed alive, so that \<open>root.after\<close> does not raise).
\<close>

datatype event =
    ShowError string string
  | ShowWarning string string
  | ShowInfo string string
  | Popen "string list"
  | OutputTail string
  | LogWrite string
  | Callback pyfloat
  | SetStatus string
  | ProgressBar int
  | PercentVar string
  | ThreadStart

record ui =
  status_var :: string
  bar_value :: int
  percent_var :: string
  output_tail_var :: string

fun ui_step :: "ui \<Rightarrow> event \<Rightarrow> ui" where
  "ui_step u (SetStatus m) = u\<lparr>status_var := m\<rparr>"
| "ui_step u (ProgressBar v) = u\<lparr>bar_value := v\<rparr>"
| "ui_step u (PercentVar t) = u\<lparr>percent_var := t\<rparr>"
| "ui_step u (OutputTail t) = u\<lparr>output_tail_var := t\<rparr>"
| "ui_step u _ = u"

definition ui_run :: "ui \<Rightarrow> event list \<Rightarrow> ui" where
  "ui_run u evs = foldl ui_step u evs"

text \<open>The window as the script builds it: status "Idle", an empty bar and empty labels.\<close>

definition ui_init :: ui where
  "ui_init = \<lparr>status_var = ''Idle'', bar_value = 0, percent_var = [], output_tail_var = []\<rparr>"

fun str_nat :: "nat \<Rightarrow> string" where
  "str_nat n =
     (if n < 10 then [char_of (48 + n)]
      else str_nat (n div 10) @ [char_of (48 + n mod 10)])"

text \<open>\<open>f"{x:.1f}"\<close>: one decimal, correctly rounded.\<close>

definition fmt_1f :: "pyfloat \<Rightarrow> string" where
  "fmt_1f x =
     (case x of
        Fin r \<Rightarrow>
          (let n = nat (round_half_even (\<bar>r\<bar> * 10))
           in (if r < 0 then ''-'' else []) @ str_nat (n div 10) @ ''.'' @ str_nat (n mod 10))
      | PosInf \<Rightarrow> ''inf''
      | NegInf \<Rightarrow> ''-inf''
      | NaN \<Rightarrow> ''nan'')"

text \<open>
  \<^verbatim>\<open>
  def update_status(message):
      try:
          root.after(0, lambda: status_var.set(message))
      except Exception:
          pass

  def set_progress(pct):
      try:
          clamped = max(0.0, min(100.0, float(pct)))
          def apply():
              try:
                  progress_bar.stop()
              except Exception:
                  pass
              progress_bar.config(mode="determinate", value=int(round(clamped)), maximum=100)
              percent_var.set(f"{clamped:.1f}%")
          root.after(0, apply)
      except Exception:
          pass
  \<close>
  The argument is a number (\<open>0\<close> or a float in every call of the program), so
  \<open>float(pct)\<close> is that number. Were \<open>round\<close> to raise in \<open>apply\<close>, nothing would be
  configured.
\<close>

definition update_status :: "string \<Rightarrow> event list" where
  "update_status message = [SetStatus message]"

definition clamp_pct :: "pyfloat \<Rightarrow> pyfloat" where
  "clamp_pct pct = py_max (Fin 0) (py_min (Fin 100) pct)"

definition set_progress :: "pyfloat \<Rightarrow> event list" where
  "set_progress pct =
     (let clamped = clamp_pct pct
      in case py_round clamped of
           None \<Rightarrow> []
         | Some v \<Rightarrow> [ProgressBar v, PercentVar (fmt_1f clamped @ ''%'')])"

section \<open>The environment\<close>

text \<open>
  What the program reads from the operating system is a parameter of the model: the
  directory of the script, the file system (\<open>os.path.isfile\<close>, \<open>glob.glob\<close>,
  \<open>shutil.which\<close>), the path functions of the platform (\<open>os.path.join\<close>,
  \<open>os.path.basename\<close>, \<open>os.path.splitext\<close>) and the behaviour of the child process
  started with a given argument vector.

  A child process is what the parent observes of it: whether \<open>Popen\<close> raises, the results
  of the successive \<open>proc.stdout.read(64)\<close> calls (after the list is used up the stream
  is at its end and \<open>read\<close> returns the empty string), whether \<open>proc.wait()\<close> raises, and
  the exit code. Exceptions are instances of \<open>Exception\<close>, the class the handler of
  \<open>run_chdman\<close> catches.
\<close>

datatype py_exc = PyException string

datatype read_result = Data string | ReadRaises py_exc

record process =
  popen_raises :: "py_exc option"
  reads :: "read_result list"
  wait_raises :: "py_exc option"
  returncode :: int

record env =
  base_dir :: string
  isfile :: "string \<Rightarrow> bool"
  which :: "string \<Rightarrow> string option"
  path_join :: "string \<Rightarrow> string \<Rightarrow> string"
  basename :: "string \<Rightarrow> string"
  splitext :: "string \<Rightarrow> string \<times> string"
  glob :: "string \<Rightarrow> string list"
  spawn :: "string list \<Rightarrow> process"

text \<open>
  \<^verbatim>\<open>
  def find_chdman():
      base_dir = getattr(sys, '_MEIPASS', os.path.dirname(os.path.abspath(__file__)))
      local_path = os.path.join(base_dir, "chdman.exe")
      if os.path.isfile(local_path):
          return local_path
      found = shutil.which("chdman")
      if found:
          return found
      return None

  CHDMAN_PATH = find_chdman()
  \<close>
\<close>

definition find_chdman :: "env \<Rightarrow> string option" where
  "find_chdman e =
     (let local_path = path_join e (base_dir e) ''chdman.exe''
      in if isfile e local_path then Some local_path
         else case which e ''chdman'' of
                Some found \<Rightarrow> if found \<noteq> [] then Some found else None
              | None \<Rightarrow> None)"

definition CHDMAN_PATH :: "env \<Rightarrow> string option" where
  "CHDMAN_PATH e = find_chdman e"

definition SYSTEMS :: "string list" where
  "SYSTEMS =
     [''Sony PlayStation (PS1)'',
      ''Sony PlayStation 2 (PS2)'',
      ''Sega Saturn'',
      ''Sega Dreamcast'',
      ''Sega / Mega CD'',
      ''SNK Neo Geo CD'',
      ''NEC TurboGrafx CD / PC Engine CD'',
      ''3DO'',
      ''Commodore Amiga CD32'']"

definition SYSTEM_FILETYPES :: "(string \<times> string list) list" where
  "SYSTEM_FILETYPES =
     [(''Sony PlayStation (PS1)'', [''.cue'', ''.iso'']),
      (''Sony PlayStation 2 (PS2)'', [''.cue'', ''.iso'']),
      (''Sega Saturn'', [''.cue'', ''.iso'']),
      (''Sega Dreamcast'', [''.gdi'', ''.cue'', ''.cdi'', ''.iso'']),
      (''Sega / Mega CD'', [''.cue'', ''.iso'']),
      (''Neo Geo CD'', [''.cue'', ''.iso'']),
      (''TurboGrafx / PC Engine CD'', [''.cue'', ''.iso'']),
      (''3DO'', [''.cue'', ''.iso'']),
      (''Commodore Amiga CD32'', [''.cue'', ''.iso''])]"

fun py_join :: "string \<Rightarrow> string list \<Rightarrow> string" where
  "py_join sep [] = []"
| "py_join sep [x] = x"
| "py_join sep (x # y # ys) = x @ sep @ py_join sep (y # ys)"

text \<open>
  \<^verbatim>\<open>
  def build_filetypes(system: str):
      exts = SYSTEM_FILETYPES.get(system, [".cue", ".gdi", ".iso"])
      patterns = " ".join(f"*{e}" for e in exts)
      return [("Disc files", patterns), ("All files", "*.*")], exts
  \<close>
\<close>

definition build_filetypes :: "string \<Rightarrow> (string \<times> string) list \<times> string list" where
  "build_filetypes system =
     (let exts = (case map_of SYSTEM_FILETYPES system of
                    Some es \<Rightarrow> es
                  | None \<Rightarrow> [''.cue'', ''.gdi'', ''.iso'']);
          patterns = py_join '' '' (map (\<lambda>e. ''*'' @ e) exts)
      in ([(''Disc files'', patterns), (''All files'', ''*.*'')], exts))"

section \<open>Running the converter\<close>

text \<open>
  The scan of the buffer, lines 114-122 of the source:
  \<^verbatim>\<open>
  if progress_cb:
      for m in re.finditer(r"(\d{1,3}(?:\.\d+)?)\s*%", buffer):
          try:
              pct = float(m.group(1))
              if 0.0 <= pct <= 100.0:
                  progress_cb(pct)
          except ValueError:
              pass
  \<close>
  The callback is a function from the reported value to the events it issues. In every
  call of the program it is \<open>set_progress\<close>, which catches every exception, so a call of
  the callback returns.
\<close>

fun scan_matches :: "(pyfloat \<Rightarrow> event list) \<Rightarrow> (nat \<times> nat \<times> string) list \<Rightarrow> event list" where
  "scan_matches cb [] = []"
| "scan_matches cb ((a, b, g) # ms) =
     (let pct = py_float g
      in (if fl_le (Fin 0) pct \<and> fl_le pct (Fin 100) then cb pct else [])
         @ scan_matches cb ms)"

definition scan_buffer :: "(pyfloat \<Rightarrow> event list) option \<Rightarrow> string \<Rightarrow> event list" where
  "scan_buffer progress_cb buffer =
     (case progress_cb of
        None \<Rightarrow> []
      | Some cb \<Rightarrow> scan_matches cb (finditer 0 buffer))"

text \<open>\<open>buffer[-k:]\<close>: the last \<open>k\<close> characters, the whole buffer when it is shorter.\<close>

definition last_chars :: "nat \<Rightarrow> string \<Rightarrow> string" where
  "last_chars k buffer = drop (length buffer - k) buffer"

definition tail_of :: "string \<Rightarrow> string" where
  "tail_of buffer =
     map (\<lambda>c. if c = CHR 0x0D \<or> c = CHR 0x0A then CHR '' '' else c) (last_chars 80 buffer)"

text \<open>
  The read loop, lines 97-125:
  \<^verbatim>\<open>
  while True:
      chunk = proc.stdout.read(64)
      if not chunk:
          break
      buffer += chunk
      tail = buffer[-80:].replace("\r", " ").replace("\n", " ")
      ... root.after(0, lambda t=tail: output_tail_var.set(t)) ...
      ... logf.write(chunk) ...
      if progress_cb:
          ... (the scan above)
      if len(buffer) > 128:
          buffer = buffer[-16:]
  \<close>
  It returns the events and the exception that ended it, if one did.
\<close>

fun stream_loop ::
  "(pyfloat \<Rightarrow> event list) option \<Rightarrow> string \<Rightarrow> read_result list
     \<Rightarrow> event list \<times> py_exc option" where
  "stream_loop progress_cb buffer [] = ([], None)"
| "stream_loop progress_cb buffer (ReadRaises e # rs) = ([], Some e)"
| "stream_loop progress_cb buffer (Data chunk # rs) =
     (if chunk = [] then ([], None)
      else
        let buffer1 = buffer @ chunk;
            evs = [OutputTail (tail_of buffer1), LogWrite chunk]
                  @ scan_buffer progress_cb buffer1;
            buffer2 = (if length buffer1 > 128 then last_chars 16 buffer1 else buffer1);
            (evs', r) = stream_loop progress_cb buffer2 rs
        in (evs @ evs', r))"

text \<open>
  The body of the \<open>try\<close> of \<open>run_chdman\<close>, lines 77-135: \<open>Inl e\<close> when it raises
  \<open>e\<close>, \<open>Inr b\<close> when it returns \<open>b\<close>.
\<close>

definition run_body ::
  "process \<Rightarrow> string list \<Rightarrow> (pyfloat \<Rightarrow> event list) option
     \<Rightarrow> (py_exc + bool) \<times> event list" where
  "run_body proc argv progress_cb =
     (case popen_raises proc of
        Some e \<Rightarrow> (Inl e, [])
      | None \<Rightarrow>
          (let (evs, r) = stream_loop progress_cb [] (reads proc)
           in case r of
                Some e \<Rightarrow> (Inl e, Popen argv # evs)
              | None \<Rightarrow>
                  (case wait_raises proc of
                     Some e \<Rightarrow> (Inl e, Popen argv # evs)
                   | None \<Rightarrow>
                       (let final = (if returncode proc = 0
                                    then (case progress_cb of
                                            None \<Rightarrow> []
                                          | Some cb \<Rightarrow> cb (Fin 100))
                                    else [])
                        in (Inr (returncode proc = 0), Popen argv # evs @ final)))))"

text \<open>
  \<^verbatim>\<open>
  def run_chdman(input_file, output_file, progress_cb=None, subcommand: str = "createcd"):
      if not CHDMAN_PATH:
          messagebox.showerror("Error", "Could not find chdman.exe!\nPut it in the same folder or PATH.")
          return False
      try:
          proc = subprocess.Popen([CHDMAN_PATH, subcommand, "-i", input_file, "-o", output_file], ...)
          ...
          proc.wait()
          if proc.returncode == 0 and progress_cb:
              progress_cb(100.0)
          return proc.returncode == 0
      except Exception:
          return False
  \<close>
  The result is \<open>Inr b\<close> when the call returns \<open>b\<close> and \<open>Inl e\<close> when the exception \<open>e\<close>
  leaves the function. \<open>not CHDMAN_PATH\<close> holds for \<open>None\<close> and for the empty string.
\<close>

definition run_chdman ::
  "env \<Rightarrow> string \<Rightarrow> string \<Rightarrow> (pyfloat \<Rightarrow> event list) option \<Rightarrow> string
     \<Rightarrow> (py_exc + bool) \<times> event list" where
  "run_chdman e input_file output_file progress_cb subcommand =
     (let not_found =
            (Inr False,
             [ShowError ''Error''
                (''Could not find chdman.exe!'' @ [CHR 0x0A]
                 @ ''Put it in the same folder or PATH.'')])
      in case CHDMAN_PATH e of
           None \<Rightarrow> not_found
         | Some path \<Rightarrow>
             if path = [] then not_found
             else
               (let argv = [path, subcommand, ''-i'', input_file, ''-o'', output_file]
                in case run_body (spawn e argv) argv progress_cb of
                     (Inl ex, evs) \<Rightarrow> (Inr False, evs)
                   | (Inr b, evs) \<Rightarrow> (Inr b, evs)))"

text \<open>The observer used to state what a callback receives: it records each value.\<close>

definition spy :: "pyfloat \<Rightarrow> event list" where
  "spy v = [Callback v]"

fun callback_values :: "event list \<Rightarrow> pyfloat list" where
  "callback_values [] = []"
| "callback_values (Callback v # evs) = v # callback_values evs"
| "callback_values (_ # evs) = callback_values evs"

text \<open>
  The positions, in the whole stream, at which the loop cuts the buffer: \<open>off\<close> is the
  position of the head of the buffer. They are not computed by the program; they state
  which tokens a cut can break.
\<close>

fun cut_points :: "nat \<Rightarrow> string \<Rightarrow> string list \<Rightarrow> nat list" where
  "cut_points off buffer [] = []"
| "cut_points off buffer (chunk # cs) =
     (let buffer1 = buffer @ chunk
      in if length buffer1 > 128
         then (off + length buffer1 - 16)
              # cut_points (off + length buffer1 - 16) (last_chars 16 buffer1) cs
         else cut_points off buffer1 cs)"

definition straddles :: "nat \<times> nat \<times> string \<Rightarrow> nat \<Rightarrow> bool" where
  "straddles m p = (fst m < p \<and> p < fst (snd m))"

section \<open>Batch conversion\<close>

text \<open>
  \<^verbatim>\<open>
  def convert_files(files, system):
      total, success, fail = len(files), 0, 0
      for idx, f in enumerate(files, 1):
          output_file = os.path.splitext(f)[0] + ".chd"
          update_status(f"[{idx}/{total}] Converting: {os.path.basename(f)}")
          set_progress(0)
          subcmd = choose_subcommand(system, f)
          if run_chdman(f, output_file, progress_cb=set_progress, subcommand=subcmd):
              success += 1
          else:
              fail += 1
      update_status("Idle")
      set_progress(0)
      percent_var.set("")
      messagebox.showinfo("Batch Complete", f"{system}\nConverted: {success}\nFailed: {fail}")
  \<close>
\<close>

definition convert_one :: "env \<Rightarrow> string \<Rightarrow> nat \<Rightarrow> nat \<Rightarrow> string \<Rightarrow> (py_exc + bool) \<times> event list" where
  "convert_one e system total_n idx f =
     (let output_file = fst (splitext e f) @ ''.chd'';
          ev1 = update_status (''['' @ str_nat idx @ ''/'' @ str_nat total_n @ ''] Converting: ''
                               @ basename e f);
          ev2 = set_progress (Fin 0);
          subcmd = choose_subcommand system f;
          (r, ev3) = run_chdman e f output_file (Some set_progress) subcmd
      in (r, ev1 @ ev2 @ ev3))"

fun convert_loop ::
  "env \<Rightarrow> string \<Rightarrow> nat \<Rightarrow> nat \<Rightarrow> nat \<Rightarrow> nat \<Rightarrow> string list
     \<Rightarrow> (py_exc + (nat \<times> nat)) \<times> event list" where
  "convert_loop e system total_n idx success fail [] = (Inr (success, fail), [])"
| "convert_loop e system total_n idx success fail (f # fs) =
     (case convert_one e system total_n idx f of
        (Inl ex, evs) \<Rightarrow> (Inl ex, evs)
      | (Inr ok, evs) \<Rightarrow>
          (let (r, evs') = (if ok
                            then convert_loop e system total_n (idx + 1) (success + 1) fail fs
                            else convert_loop e system total_n (idx + 1) success (fail + 1) fs)
           in (r, evs @ evs')))"

definition summary :: "string \<Rightarrow> nat \<Rightarrow> nat \<Rightarrow> string" where
  "summary system success fail =
     system @ [CHR 0x0A] @ ''Converted: '' @ str_nat success
            @ [CHR 0x0A] @ ''Failed: '' @ str_nat fail"

definition convert_files :: "env \<Rightarrow> string list \<Rightarrow> string \<Rightarrow> (py_exc + unit) \<times> event list" where
  "convert_files e files system =
     (case convert_loop e system (length files) 1 0 0 files of
        (Inl ex, evs) \<Rightarrow> (Inl ex, evs)
      | (Inr (success, fail), evs) \<Rightarrow>
          (Inr (),
           evs @ update_status ''Idle'' @ set_progress (Fin 0)
               @ [PercentVar [], ShowInfo ''Batch Complete'' (summary system success fail)]))"

text \<open>
  \<^verbatim>\<open>
  def select_batch():
      system = system_var.get()
      folder = filedialog.askdirectory(title="Select Folder with Disc Images")
      if not folder: return
      _, exts = build_filetypes(system)
      files = []
      for e in exts:
          files += glob.glob(os.path.join(folder, f"*{e}"))
      if not files:
          messagebox.showwarning("No files", "No .cue/.gdi/.iso files found.")
          return
      threading.Thread(target=convert_files, args=(files, system), daemon=True).start()
  \<close>
  The selected system and the folder the dialog returns are arguments. The events of the
  worker thread follow \<open>ThreadStart\<close>.
\<close>

definition batch_files :: "env \<Rightarrow> string \<Rightarrow> string \<Rightarrow> string list" where
  "batch_files e system folder =
     concat (map (\<lambda>ext. glob e (path_join e folder (''*'' @ ext))) (snd (build_filetypes system)))"

definition select_batch :: "env \<Rightarrow> string \<Rightarrow> string \<Rightarrow> event list" where
  "select_batch e system folder =
     (if folder = [] then []
      else
        let files = batch_files e system folder
        in if files = []
           then [ShowWarning ''No files'' ''No .cue/.gdi/.iso files found.'']
           else ThreadStart # snd (convert_files e files system))"

section \<open>Auxiliary notions for the statements\<close>

text \<open>The buffer kept for the next round of the read loop (lines 124-125).\<close>

definition next_buffer :: "string \<Rightarrow> string" where
  "next_buffer b = (if length b > 128 then last_chars 16 b else b)"

text \<open>The exception, if any, that the parent meets while it reads the output of the
  child up to the end of the stream.\<close>

fun stream_raises :: "read_result list \<Rightarrow> py_exc option" where
  "stream_raises [] = None"
| "stream_raises (ReadRaises e # rs) = Some e"
| "stream_raises (Data chunk # rs) = (if chunk = [] then None else stream_raises rs)"

text \<open>
  An example environment: the converter lies beside the script; the folder
  \<open>C:/roms\<close> holds three images. The child given \<open>good.iso\<close> or \<open>game.cue\<close>
  prints \<open>5\<close>, \<open>0%\<close> and exits with code 0; the one given \<open>bad.cue\<close> prints
  \<open>12%\<close> and exits with code 1; for \<open>locked.cue\<close> the launch raises; for
  \<open>garbled.cue\<close> the second read raises.
\<close>

definition demo_spawn :: "string list \<Rightarrow> process" where
  "demo_spawn argv =
     (let inp = (case argv of [p, sub, i, inp, out, dst] \<Rightarrow> inp | _ \<Rightarrow> [])
      in if inp = ''C:/roms/bad.cue''
         then \<lparr>popen_raises = None, reads = [Data ''12%''], wait_raises = None, returncode = 1\<rparr>
         else if inp = ''C:/roms/locked.cue''
         then \<lparr>popen_raises = Some (PyException ''PermissionError''), reads = [],
               wait_raises = None, returncode = 0\<rparr>
         else if inp = ''C:/roms/garbled.cue''
         then \<lparr>popen_raises = None,
               reads = [Data ''7%'', ReadRaises (PyException ''UnicodeDecodeError'')],
               wait_raises = None, returncode = 0\<rparr>
         else \<lparr>popen_raises = None, reads = [Data ''5'', Data ''0%''],
               wait_raises = None, returncode = 0\<rparr>)"

definition demo_basename :: "string \<Rightarrow> string" where
  "demo_basename p = rev (takeWhile (\<lambda>c. c \<noteq> CHR ''/'') (rev p))"

definition demo_splitext :: "string \<Rightarrow> string \<times> string" where
  "demo_splitext p =
     (let ext = rev (takeWhile (\<lambda>c. c \<noteq> CHR ''.'') (rev p))
      in if length ext < length (demo_basename p)
         then (take (length p - length ext - 1) p, drop (length p - length ext - 1) p)
         else (p, []))"

definition demo_env :: env where
  "demo_env =
     \<lparr>base_dir = ''C:/chd'',
      isfile = (\<lambda>p. p = ''C:/chd/chdman.exe''),
      which = (\<lambda>n. None),
      path_join = (\<lambda>a b. a @ ''/'' @ b),
      basename = demo_basename,
      splitext = demo_splitext,
      glob = (\<lambda>pat. if pat = ''C:/roms/*.cue'' then [''C:/roms/game.cue'', ''C:/roms/bad.cue'']
                      else if pat = ''C:/roms/*.iso'' then [''C:/roms/good.iso'']
                      else []),
      spawn = demo_spawn\<rparr>"

text \<open>The same machine without the converter.\<close>

definition bare_env :: env where
  "bare_env = demo_env\<lparr>isfile := (\<lambda>p. False)\<rparr>"

text \<open>The range check of the scan: \<open>0.0 <= pct <= 100.0\<close>.\<close>

definition valid_pct :: "pyfloat \<Rightarrow> bool" where
  "valid_pct v = (fl_le (Fin 0) v \<and> fl_le v (Fin 100))"

text \<open>A conversion succeeds when the call of \<open>run_chdman\<close> that \<open>convert_files\<close> makes
  for the file returns \<open>True\<close>; \<open>file_events\<close> are the events of one round of its loop.\<close>

definition conversion_ok :: "env \<Rightarrow> string \<Rightarrow> string \<Rightarrow> bool" where
  "conversion_ok e system f =
     (fst (run_chdman e f (fst (splitext e f) @ ''.chd'') (Some set_progress)
             (choose_subcommand system f)) = Inr True)"

definition file_events :: "env \<Rightarrow> string \<Rightarrow> nat \<Rightarrow> nat \<Rightarrow> string \<Rightarrow> event list" where
  "file_events e system total_n idx f =
     [SetStatus (''['' @ str_nat idx @ ''/'' @ str_nat total_n @ ''] Converting: '' @ basename e f),
      ProgressBar 0, PercentVar ''0.0%'']
     @ snd (run_chdman e f (fst (splitext e f) @ ''.chd'') (Some set_progress)
              (choose_subcommand system f))"

text \<open>A progress display within bounds: the bar between 0 and 100, the label empty or
  the rendering of a number between 0 and 100.\<close>

fun event_ok :: "event \<Rightarrow> bool" where
  "event_ok (ProgressBar v) = (0 \<le> v \<and> v \<le> 100)"
| "event_ok (PercentVar t) =
     (t = [] \<or> (\<exists>c. 0 \<le> c \<and> c \<le> 100 \<and> t = fmt_1f (Fin c) @ ''%''))"
| "event_ok _ = True"

definition displayed_ok :: "ui \<Rightarrow> bool" where
  "displayed_ok u \<longleftrightarrow>
     0 \<le> bar_value u \<and> bar_value u \<le> 100
     \<and> (percent_var u = []
        \<or> (\<exists>c. 0 \<le> c \<and> c \<le> 100 \<and> percent_var u = fmt_1f (Fin c) @ ''%''))"

section \<open>Auxiliary notions for the chunking property\<close>






definition broken_chunks :: "string list" where
  "broken_chunks = [replicate 112 CHR ''x'' @ ''12'' @ replicate 15 CHR '' '', ''%'']"

section \<open>Subcommand selection: proofs\<close>

lemma of_char_lt256: "(of_char c :: nat) < 256"
  by (metis of_char_mod_256 mod_less_divisor zero_less_numeral)

lemma py_lower_char_eq_iff:
  assumes "(of_char d :: nat) \<notin> {65..90} \<union> {192..222}"
  shows "py_lower_char c = d \<longleftrightarrow>
           c = d \<or> ((32::nat) \<le> of_char d \<and> c = char_of (of_char d - (32::nat))
                    \<and> (of_char d :: nat) \<in> {97..122} \<union> {224..254} - {247})"
proof -
  define n where "n = (of_char c :: nat)"
  define m where "m = (of_char d :: nat)"
  have n: "n < 256" and m: "m < 256"
    unfolding n_def m_def by (rule of_char_lt256)+
  have c: "c = char_of n" and d: "d = char_of m"
    unfolding n_def m_def by simp_all
  have eq: "\<And>a b::nat. a < 256 \<Longrightarrow> b < 256 \<Longrightarrow> (char_of a = char_of b) = (a = b)"
    by (simp add: char_of_eq_iff take_bit_eq_mod)
  show ?thesis
    using assms n m
    unfolding py_lower_char_def Let_def n_def[symmetric] m_def[symmetric]
    apply (simp only: c d)
    apply (auto simp: eq)
    done
qed

lemma lower_dot: "py_lower_char c = CHR ''.'' \<longleftrightarrow> c = CHR ''.''"
  by (subst py_lower_char_eq_iff) simp_all

lemma lower_i: "py_lower_char c = CHR ''i'' \<longleftrightarrow> c = CHR ''i'' \<or> c = CHR ''I''"
  by (subst py_lower_char_eq_iff) (simp_all add: char_of_def bit_Suc_0_iff)

lemma lower_s: "py_lower_char c = CHR ''s'' \<longleftrightarrow> c = CHR ''s'' \<or> c = CHR ''S''"
  by (subst py_lower_char_eq_iff) (simp_all add: char_of_def bit_Suc_0_iff)

lemma lower_o: "py_lower_char c = CHR ''o'' \<longleftrightarrow> c = CHR ''o'' \<or> c = CHR ''O''"
  by (subst py_lower_char_eq_iff) (simp_all add: char_of_def bit_Suc_0_iff)

lemma suffix_iso_lower:
  "suffix ''.iso'' (py_lower p) \<longleftrightarrow>
     (\<exists>stem a b c. p = stem @ [CHR ''.'', a, b, c]
        \<and> a \<in> {CHR ''i'', CHR ''I''} \<and> b \<in> {CHR ''s'', CHR ''S''}
        \<and> c \<in> {CHR ''o'', CHR ''O''})"
  (is "?L \<longleftrightarrow> ?R")
proof
  assume ?L
  then obtain zs where zs: "map py_lower_char p = zs @ ''.iso''"
    by (auto simp: suffix_def py_lower_def)
  then obtain stem e where p: "p = stem @ e" and e: "map py_lower_char e = ''.iso''"
    by (auto simp: map_eq_append_conv)
  from e obtain d a b c where "e = [d, a, b, c]" "py_lower_char d = CHR ''.''"
     "py_lower_char a = CHR ''i''" "py_lower_char b = CHR ''s''" "py_lower_char c = CHR ''o''"
    by (auto simp: map_eq_Cons_conv)
  with p show ?R
    by (auto simp: lower_dot lower_i lower_s lower_o)
next
  assume ?R
  then obtain stem a b c where p: "p = stem @ [CHR ''.'', a, b, c]"
    and "py_lower_char a = CHR ''i''" "py_lower_char b = CHR ''s''"
        "py_lower_char c = CHR ''o''"
    by (auto simp: lower_i lower_s lower_o)
  moreover have "py_lower_char CHR ''.'' = CHR ''.''"
    by (simp add: lower_dot)
  ultimately have "py_lower p = map py_lower_char stem @ ''.iso''"
    by (simp add: py_lower_def)
  then show ?L
    by (simp add: suffix_def)
qed

text \<open>
  Claim C1. For every system string and input path, \<open>choose_subcommand\<close> returns the DVD
  subcommand \<open>createdvd\<close> exactly when the system names the PlayStation 2 (the text
  "PlayStation 2" occurs in it) and the path ends with the extension \<open>.iso\<close> in any
  mix of upper and lower case; in every other case it returns the CD subcommand
  \<open>createcd\<close>.
\<close>

theorem choose_subcommand_spec:
  "choose_subcommand system input_path =
     (if (\<exists>pre post. system = pre @ ''PlayStation 2'' @ post)
         \<and> (\<exists>stem a b c. input_path = stem @ [CHR ''.'', a, b, c]
               \<and> a \<in> {CHR ''i'', CHR ''I''} \<and> b \<in> {CHR ''s'', CHR ''S''}
               \<and> c \<in> {CHR ''o'', CHR ''O''})
      then ''createdvd'' else ''createcd'')"
  unfolding choose_subcommand_def suffix_iso_lower sublist_def by (rule refl)

theorem choose_subcommand_spec_witness:
  "choose_subcommand ''Sony PlayStation 2 (PS2)'' ''C:/roms/Game.IsO'' = ''createdvd''
   \<and> choose_subcommand ''Sony PlayStation 2 (PS2)'' ''game.cue'' = ''createcd''
   \<and> choose_subcommand ''Sony PlayStation (PS1)'' ''game.iso'' = ''createcd''"
proof -
  have a: "\<exists>pre post. ''Sony PlayStation 2 (PS2)'' = pre @ ''PlayStation 2'' @ post"
    by (rule exI[of _ "''Sony ''"], rule exI[of _ "'' (PS2)''"]) simp
  have b: "\<exists>stem a b c. ''C:/roms/Game.IsO'' = stem @ [CHR ''.'', a, b, c]
               \<and> a \<in> {CHR ''i'', CHR ''I''} \<and> b \<in> {CHR ''s'', CHR ''S''}
               \<and> c \<in> {CHR ''o'', CHR ''O''}"
    by (rule exI[of _ "''C:/roms/Game''"]) simp
  have c: "\<not> (\<exists>stem a b c. ''game.cue'' = stem @ [CHR ''.'', a, b, c]
               \<and> a \<in> {CHR ''i'', CHR ''I''} \<and> b \<in> {CHR ''s'', CHR ''S''}
               \<and> c \<in> {CHR ''o'', CHR ''O''})"
    by (auto simp: append_eq_Cons_conv Cons_eq_append_conv)
  have d: "choose_subcommand ''Sony PlayStation (PS1)'' ''game.iso'' = ''createcd''"
    by code_simp
  show ?thesis
    using choose_subcommand_spec[of "''Sony PlayStation 2 (PS2)''" "''C:/roms/Game.IsO''"]
      choose_subcommand_spec[of "''Sony PlayStation 2 (PS2)''" "''game.cue''"] a b c d
    by simp
qed

text \<open>Among the systems of the selector, the PlayStation 2 entry is the only one for
  which an \<open>.iso\<close> image is converted with \<open>createdvd\<close>.\<close>

lemma choose_subcommand_systems:
  "list_all (\<lambda>system. choose_subcommand system ''disc.iso'' = ''createdvd''
                         \<longleftrightarrow> system = ''Sony PlayStation 2 (PS2)'') SYSTEMS"
  by code_simp

section \<open>Running the converter: proofs\<close>

lemma stream_loop_Data:
  "chunk \<noteq> [] \<Longrightarrow>
   stream_loop cb buffer (Data chunk # rs) =
     ([OutputTail (tail_of (buffer @ chunk)), LogWrite chunk] @ scan_buffer cb (buffer @ chunk)
        @ fst (stream_loop cb (next_buffer (buffer @ chunk)) rs),
      snd (stream_loop cb (next_buffer (buffer @ chunk)) rs))"
  by (simp add: Let_def next_buffer_def split: prod.splits)

lemma snd_stream_loop: "snd (stream_loop cb buffer rs) = stream_raises rs"
proof (induction rs arbitrary: buffer)
  case Nil
  show ?case by simp
next
  case (Cons r rs)
  show ?case
  proof (cases r)
    case (Data chunk)
    show ?thesis
    proof (cases "chunk = []")
      case True
      with Data show ?thesis by simp
    next
      case False
      with Data Cons.IH show ?thesis
        by (simp add: stream_loop_Data del: stream_loop.simps)
    qed
  next
    case (ReadRaises ex)
    then show ?thesis by simp
  qed
qed

lemma run_body_ok:
  assumes "popen_raises p = None" "stream_raises (reads p) = None" "wait_raises p = None"
  shows "run_body p argv cb =
           (Inr (returncode p = 0),
            Popen argv # fst (stream_loop cb [] (reads p))
              @ (if returncode p = 0
                 then (case cb of None \<Rightarrow> [] | Some f \<Rightarrow> f (Fin 100)) else []))"
proof -
  obtain evs r where sl: "stream_loop cb [] (reads p) = (evs, r)"
    by (cases "stream_loop cb [] (reads p)")
  have "r = None"
    using snd_stream_loop[of cb "[]" "reads p"] sl assms(2) by simp
  then show ?thesis
    using assms sl by (simp add: run_body_def)
qed

lemma run_body_raises:
  assumes "popen_raises p \<noteq> None \<or> stream_raises (reads p) \<noteq> None \<or> wait_raises p \<noteq> None"
  shows "\<exists>ex. fst (run_body p argv cb) = Inl ex"
proof -
  obtain evs r where sl: "stream_loop cb [] (reads p) = (evs, r)"
    by (cases "stream_loop cb [] (reads p)")
  have "r = stream_raises (reads p)"
    using snd_stream_loop[of cb "[]" "reads p"] sl by simp
  then show ?thesis
    using assms sl by (auto simp add: run_body_def split: option.splits)
qed


lemma run_chdman_never_raises:
  "\<exists>b. fst (run_chdman e input_file output_file progress_cb subcommand) = Inr b"
  by (auto simp: run_chdman_def Let_def split: option.splits prod.splits sum.splits)

lemma demo_path: "CHDMAN_PATH demo_env = Some ''C:/chd/chdman.exe''"
  by (simp add: CHDMAN_PATH_def find_chdman_def demo_env_def)

lemma demo_good:
  "spawn demo_env [''C:/chd/chdman.exe'', ''createdvd'', ''-i'', ''C:/roms/good.iso'', ''-o'',
                   ''C:/roms/good.chd'']
     = \<lparr>popen_raises = None, reads = [Data ''5'', Data ''0%''],
        wait_raises = None, returncode = 0\<rparr>"
  by (simp add: demo_env_def demo_spawn_def)

lemma demo_bad:
  "spawn demo_env [''C:/chd/chdman.exe'', ''createcd'', ''-i'', ''C:/roms/bad.cue'', ''-o'',
                   ''C:/roms/bad.chd'']
     = \<lparr>popen_raises = None, reads = [Data ''12%''], wait_raises = None, returncode = 1\<rparr>"
  by (simp add: demo_env_def demo_spawn_def)

lemma demo_locked:
  "spawn demo_env [''C:/chd/chdman.exe'', ''createcd'', ''-i'', ''C:/roms/locked.cue'', ''-o'',
                   ''C:/roms/locked.chd'']
     = \<lparr>popen_raises = Some (PyException ''PermissionError''), reads = [],
        wait_raises = None, returncode = 0\<rparr>"
  by (simp add: demo_env_def demo_spawn_def)

lemma demo_garbled:
  "spawn demo_env [''C:/chd/chdman.exe'', ''createcd'', ''-i'', ''C:/roms/garbled.cue'', ''-o'',
                   ''C:/roms/garbled.chd'']
     = \<lparr>popen_raises = None,
        reads = [Data ''7%'', ReadRaises (PyException ''UnicodeDecodeError'')],
        wait_raises = None, returncode = 0\<rparr>"
  by (simp add: demo_env_def demo_spawn_def)



text \<open>
  Claim C6. Whenever the converter is found and the child is launched, read to the end of
  its output and awaited without an exception, \<open>run_chdman\<close> returns the boolean
  (exit code = 0), with or without a callback.
\<close>

theorem run_chdman_returns_exit_status:
  assumes "CHDMAN_PATH e = Some path"
    and "argv = [path, subcommand, ''-i'', input_file, ''-o'', output_file]"
    and "popen_raises (spawn e argv) = None"
    and "stream_raises (reads (spawn e argv)) = None"
    and "wait_raises (spawn e argv) = None"
    and "path \<noteq> []"
  shows "fst (run_chdman e input_file output_file progress_cb subcommand)
           = Inr (returncode (spawn e argv) = 0)"
  using assms(1,6) run_body_ok[OF assms(3,4,5), of argv progress_cb]
  by (simp add: run_chdman_def assms(2)[symmetric])

theorem run_chdman_returns_exit_status_witness:
  "fst (run_chdman demo_env ''C:/roms/bad.cue'' ''C:/roms/bad.chd'' (Some spy) ''createcd'')
     = Inr False
   \<and> fst (run_chdman demo_env ''C:/roms/good.iso'' ''C:/roms/good.chd'' None ''createdvd'')
     = Inr True"
proof -
  let ?bad = "[''C:/chd/chdman.exe'', ''createcd'', ''-i'', ''C:/roms/bad.cue'', ''-o'',
               ''C:/roms/bad.chd'']"
  let ?good = "[''C:/chd/chdman.exe'', ''createdvd'', ''-i'', ''C:/roms/good.iso'', ''-o'',
                ''C:/roms/good.chd'']"
  have b: "popen_raises (spawn demo_env ?bad) = None"
      "stream_raises (reads (spawn demo_env ?bad)) = None"
      "wait_raises (spawn demo_env ?bad) = None"
      "returncode (spawn demo_env ?bad) = 1"
    by (simp_all add: demo_bad)
  have g: "popen_raises (spawn demo_env ?good) = None"
      "stream_raises (reads (spawn demo_env ?good)) = None"
      "wait_raises (spawn demo_env ?good) = None"
      "returncode (spawn demo_env ?good) = 0"
    by (simp_all add: demo_good)
  have ne: "''C:/chd/chdman.exe'' \<noteq> []" by simp
  from run_chdman_returns_exit_status[OF demo_path refl b(1,2,3) ne, of "Some spy"]
       run_chdman_returns_exit_status[OF demo_path refl g(1,2,3) ne, of None]
  show ?thesis
    by (simp add: b(4) g(4))
qed

text \<open>
  Claim C7. Whenever launching the child raises, or reading its output raises,
  \<open>run_chdman\<close> returns \<open>False\<close>: the result is the returned value \<open>Inr False\<close> and not
  an exception \<open>Inl ex\<close> handed to the caller.
\<close>

theorem run_chdman_catches:
  assumes "CHDMAN_PATH e = Some path"
    and "argv = [path, subcommand, ''-i'', input_file, ''-o'', output_file]"
    and "popen_raises (spawn e argv) \<noteq> None \<or> stream_raises (reads (spawn e argv)) \<noteq> None"
    and "path \<noteq> []"
  shows "fst (run_chdman e input_file output_file progress_cb subcommand) = Inr False"
proof -
  obtain ex where "fst (run_body (spawn e argv) argv progress_cb) = Inl ex"
    using run_body_raises[of "spawn e argv" argv progress_cb] assms(3) by blast
  then show ?thesis
    using assms(1,4)
    by (cases "run_body (spawn e argv) argv progress_cb")
       (simp add: run_chdman_def assms(2)[symmetric])
qed

theorem run_chdman_catches_witness:
  "fst (run_chdman demo_env ''C:/roms/locked.cue'' ''C:/roms/locked.chd'' (Some spy) ''createcd'')
     = Inr False
   \<and> fst (run_chdman demo_env ''C:/roms/garbled.cue'' ''C:/roms/garbled.chd'' (Some spy)
          ''createcd'')
     = Inr False"
proof -
  let ?l = "[''C:/chd/chdman.exe'', ''createcd'', ''-i'', ''C:/roms/locked.cue'', ''-o'',
             ''C:/roms/locked.chd'']"
  let ?g = "[''C:/chd/chdman.exe'', ''createcd'', ''-i'', ''C:/roms/garbled.cue'', ''-o'',
             ''C:/roms/garbled.chd'']"
  have l: "popen_raises (spawn demo_env ?l) \<noteq> None
           \<or> stream_raises (reads (spawn demo_env ?l)) \<noteq> None"
    by (simp add: demo_locked)
  have g: "popen_raises (spawn demo_env ?g) \<noteq> None
           \<or> stream_raises (reads (spawn demo_env ?g)) \<noteq> None"
    by (simp add: demo_garbled)
  have ne: "''C:/chd/chdman.exe'' \<noteq> []" by simp
  from run_chdman_catches[OF demo_path refl l ne, of "Some spy"]
       run_chdman_catches[OF demo_path refl g ne, of "Some spy"]
  show ?thesis by simp
qed

text \<open>
  Claim C8. When the converter is neither beside the script nor on the search path, every
  call of \<open>run_chdman\<close> shows the error alert and returns \<open>False\<close>, and the alert is the
  only event of the call: no process is started, nothing is read or logged, and the
  callback is not invoked.
\<close>

theorem run_chdman_tool_not_found:
  assumes "\<not> isfile e (path_join e (base_dir e) ''chdman.exe'')"
    and "which e ''chdman'' = None"
  shows "run_chdman e input_file output_file progress_cb subcommand
           = (Inr False,
              [ShowError ''Error''
                 (''Could not find chdman.exe!'' @ [CHR 0x0A]
                  @ ''Put it in the same folder or PATH.'')])"
  using assms by (simp add: run_chdman_def CHDMAN_PATH_def find_chdman_def)

theorem run_chdman_tool_not_found_witness:
  "run_chdman bare_env ''C:/roms/good.iso'' ''C:/roms/good.chd'' (Some spy) ''createdvd''
     = (Inr False,
        [ShowError ''Error''
           (''Could not find chdman.exe!'' @ [CHR 0x0A] @ ''Put it in the same folder or PATH.'')])"
proof -
  have a: "\<not> isfile bare_env (path_join bare_env (base_dir bare_env) ''chdman.exe'')"
    by (simp add: bare_env_def demo_env_def)
  have b: "which bare_env ''chdman'' = None"
    by (simp add: bare_env_def demo_env_def)
  from run_chdman_tool_not_found[OF a b] show ?thesis .
qed

section \<open>The scan of the buffer: proofs\<close>

declare finditer.simps [simp del]

lemma scan_matches_filter:
  "scan_matches cb ms = concat (map cb (filter valid_pct (map (\<lambda>m. py_float (snd (snd m))) ms)))"
  by (induction cb ms rule: scan_matches.induct) (simp_all add: valid_pct_def Let_def)

lemma callback_values_spy: "callback_values (concat (map spy vs)) = vs"
  by (induction vs) (simp_all add: spy_def)

lemma finditer_example: "finditer 0 ''123.4%'' = [(0, 6, ''123.4'')]"
  by code_simp

lemma py_float_example: "\<not> valid_pct (py_float ''123.4'')"
  by code_simp

text \<open>The check is made on the float: a literal slightly above 100 that rounds to 100.0
  passes it.\<close>

lemma py_float_rounds_to_100:
  "py_float ''100.000000000000001'' = Fin 100 \<and> valid_pct (py_float ''100.000000000000001'')
   \<and> \<not> valid_pct (py_float ''100.00000000000001'')"
  by code_simp

text \<open>
  Claim C4. In every scan of the buffer the callback is invoked exactly for the matches
  of the pattern whose group, converted to a float, lies between 0.0 and 100.0, once per
  such match and in the order of the matches; a match whose value is above 100 gives no
  invocation, and the buffer \<open>123.4%\<close> gives none at all.
\<close>

theorem scan_buffer_range_check:
  "scan_buffer (Some cb) buffer
     = concat (map cb (filter valid_pct (map (\<lambda>m. py_float (snd (snd m))) (finditer 0 buffer))))
   \<and> callback_values (scan_buffer (Some spy) buffer)
     = filter valid_pct (map (\<lambda>m. py_float (snd (snd m))) (finditer 0 buffer))
   \<and> scan_buffer (Some cb) ''123.4%'' = []"
proof -
  have gen: "\<And>f b. scan_buffer (Some f) b
     = concat (map f (filter valid_pct (map (\<lambda>m. py_float (snd (snd m))) (finditer 0 b))))"
    by (simp add: scan_buffer_def scan_matches_filter)
  have "scan_buffer (Some cb) ''123.4%'' = []"
    unfolding gen finditer_example using py_float_example by simp
  then show ?thesis
    using gen by (simp add: callback_values_spy)
qed

theorem scan_buffer_range_check_witness:
  "callback_values (scan_buffer (Some spy) ''  7.5%  123.4% 100% 100.5 % 0%'')
     = [Fin (15 / 2), Fin 100, Fin 0]"
proof -
  have e: "filter valid_pct (map (\<lambda>m. py_float (snd (snd m))) (finditer 0 ''  7.5%  123.4% 100% 100.5 % 0%''))
     = [Fin (15 / 2), Fin 100, Fin 0]"
    by code_simp
  have t: "callback_values (scan_buffer (Some spy) ''  7.5%  123.4% 100% 100.5 % 0%'')
     = filter valid_pct (map (\<lambda>m. py_float (snd (snd m)))
         (finditer 0 ''  7.5%  123.4% 100% 100.5 % 0%''))"
    by (rule conjunct1[OF conjunct2[OF scan_buffer_range_check]])
  show ?thesis
    by (rule trans[OF t e])
qed

section \<open>The progress display: proofs\<close>

lemma clamp_pct_cases:
  "clamp_pct p = (case p of Fin r \<Rightarrow> Fin (max 0 (min 100 r)) | PosInf \<Rightarrow> Fin 100
                  | NegInf \<Rightarrow> Fin 0 | NaN \<Rightarrow> Fin 100)"
  by (cases p) (auto simp: clamp_pct_def py_min_def py_max_def)

lemma clamp_pct_range: "\<exists>c. clamp_pct p = Fin c \<and> 0 \<le> c \<and> c \<le> 100"
  by (cases p) (auto simp: clamp_pct_cases)

lemma round_half_even_range:
  assumes "0 \<le> c" "c \<le> 100"
  shows "0 \<le> round_half_even c \<and> round_half_even c \<le> 100"
proof -
  define f where "f = \<lfloor>c\<rfloor>"
  define d where "d = c - of_int f"
  have f0: "0 \<le> f" using assms(1) by (simp add: f_def)
  have f1: "f \<le> 100" using assms(2) by (simp add: f_def floor_le_iff)
  have d0: "0 \<le> d" by (simp add: d_def f_def)
  have "f = 100 \<Longrightarrow> d \<le> 0" using assms(2) by (simp add: d_def)
  then have up: "\<not> d < 1 / 2 \<Longrightarrow> f + 1 \<le> 100" using f1 by fastforce
  have "round_half_even c
          = (if d < 1 / 2 then f else if 1 / 2 < d then f + 1 else if even f then f else f + 1)"
    unfolding round_half_even_def Let_def d_def f_def by (rule refl)
  then have "round_half_even c = f \<or> (\<not> d < 1 / 2 \<and> round_half_even c = f + 1)"
    by (cases "d < 1 / 2") simp_all
  then show ?thesis using f0 f1 up by auto
qed

lemma set_progress_events:
  "clamp_pct p = Fin c \<Longrightarrow>
     set_progress p = [ProgressBar (round_half_even c), PercentVar (fmt_1f (Fin c) @ ''%'')]"
  by (simp add: set_progress_def)

lemma set_progress_event_ok: "ev \<in> set (set_progress p) \<Longrightarrow> event_ok ev"
proof -
  assume ev: "ev \<in> set (set_progress p)"
  obtain c where c: "clamp_pct p = Fin c" "0 \<le> c" "c \<le> 100" using clamp_pct_range by blast
  from ev have "ev = ProgressBar (round_half_even c) \<or> ev = PercentVar (fmt_1f (Fin c) @ ''%'')"
    by (simp add: set_progress_events[OF c(1)])
  then show ?thesis using round_half_even_range[OF c(2,3)] c(2,3) by auto
qed

lemma ui_step_ok: "displayed_ok u \<Longrightarrow> event_ok ev \<Longrightarrow> displayed_ok (ui_step u ev)"
  by (cases ev) (auto simp: displayed_ok_def)

lemma ui_run_ok: "displayed_ok u \<Longrightarrow> \<forall>ev \<in> set evs. event_ok ev \<Longrightarrow> displayed_ok (ui_run u evs)"
  unfolding ui_run_def
  by (induction evs arbitrary: u) (simp_all add: ui_step_ok)

text \<open>
  Claim C10. For every value \<open>p\<close> passed to \<open>set_progress\<close>, the number applied is
  \<open>max(0.0, min(100.0, p))\<close>: a finite \<open>p\<close> is clamped to the interval from 0 to 100,
  an infinity goes to the nearer bound and NaN to 100. The bar gets this number rounded
  and the label its rendering, so after every prefix of the updates of every sequence of
  calls the bar is between 0 and 100 and the label, when not empty, shows a number
  between 0 and 100.
\<close>

theorem set_progress_clamps:
  "clamp_pct p = (case p of Fin r \<Rightarrow> Fin (max 0 (min 100 r)) | PosInf \<Rightarrow> Fin 100
                  | NegInf \<Rightarrow> Fin 0 | NaN \<Rightarrow> Fin 100)
   \<and> (\<exists>c. 0 \<le> c \<and> c \<le> 100 \<and> clamp_pct p = Fin c
          \<and> set_progress p = [ProgressBar (round_half_even c), PercentVar (fmt_1f (Fin c) @ ''%'')]
          \<and> 0 \<le> round_half_even c \<and> round_half_even c \<le> 100)
   \<and> displayed_ok (ui_run ui_init (take n (concat (map set_progress ps))))"
proof -
  obtain c where c: "clamp_pct p = Fin c" "0 \<le> c" "c \<le> 100" using clamp_pct_range by blast
  have 2: "\<exists>c. 0 \<le> c \<and> c \<le> 100 \<and> clamp_pct p = Fin c
          \<and> set_progress p = [ProgressBar (round_half_even c), PercentVar (fmt_1f (Fin c) @ ''%'')]
          \<and> 0 \<le> round_half_even c \<and> round_half_even c \<le> 100"
    using c set_progress_events[OF c(1)] round_half_even_range[OF c(2,3)] by blast
  have "\<forall>ev \<in> set (take n (concat (map set_progress ps))). event_ok ev"
    using set_progress_event_ok by (auto dest!: in_set_takeD)
  moreover have "displayed_ok ui_init" by (simp add: displayed_ok_def ui_init_def)
  ultimately have 3: "displayed_ok (ui_run ui_init (take n (concat (map set_progress ps))))"
    using ui_run_ok by blast
  show ?thesis using clamp_pct_cases 2 3 by blast
qed

theorem set_progress_clamps_witness:
  "set_progress (Fin (1234 / 10)) = [ProgressBar 100, PercentVar ''100.0%'']
   \<and> set_progress (Fin (- 5)) = [ProgressBar 0, PercentVar ''0.0%'']
   \<and> set_progress NaN = [ProgressBar 100, PercentVar ''100.0%'']
   \<and> clamp_pct (Fin (505 / 10)) = Fin (505 / 10)
   \<and> displayed_ok (ui_run ui_init (take 3 (concat (map set_progress [Fin (- 5), PosInf, Fin 42]))))"
proof -
  have "set_progress (Fin (1234 / 10)) = [ProgressBar 100, PercentVar ''100.0%'']" by code_simp
  moreover have "set_progress (Fin (- 5)) = [ProgressBar 0, PercentVar ''0.0%'']" by code_simp
  moreover have "set_progress NaN = [ProgressBar 100, PercentVar ''100.0%'']" by code_simp
  moreover have "clamp_pct (Fin (505 / 10)) = Fin (505 / 10)"
    using set_progress_clamps[of "Fin (505 / 10)" 0 "[]"] by simp
  ultimately show ?thesis
    using set_progress_clamps[of NaN 3 "[Fin (- 5), PosInf, Fin 42]"] by blast
qed
section \<open>Batch conversion: proofs\<close>

lemma set_progress_zero: "set_progress (Fin 0) = [ProgressBar 0, PercentVar ''0.0%'']"
  by code_simp

lemma convert_one_eq:
  "convert_one e system total_n idx f
     = (Inr (conversion_ok e system f), file_events e system total_n idx f)"
proof -
  obtain b where b: "fst (run_chdman e f (fst (splitext e f) @ ''.chd'') (Some set_progress)
             (choose_subcommand system f)) = Inr b"
    using run_chdman_never_raises by blast
  then show ?thesis
    by (cases "run_chdman e f (fst (splitext e f) @ ''.chd'') (Some set_progress)
             (choose_subcommand system f)")
       (simp add: convert_one_def conversion_ok_def file_events_def update_status_def
          set_progress_zero)
qed

lemma convert_loop_eq:
  "convert_loop e system total_n idx success fail files
     = (Inr (success + length (filter (conversion_ok e system) files),
             fail + length (filter (\<lambda>f. \<not> conversion_ok e system f) files)),
        concat (map (\<lambda>(i, f). file_events e system total_n i f) (zip [idx ..< idx + length files] files)))"
proof (induction files arbitrary: idx success fail)
  case Nil
  show ?case by simp
next
  case (Cons f fs)
  have up: "[idx ..< idx + length (f # fs)] = idx # [Suc idx ..< Suc idx + length fs]"
    by (simp add: upt_rec)
  show ?case
    unfolding up
    by (simp add: convert_one_eq Cons.IH)
qed

text \<open>
  Claim C5. \<open>convert_files\<close> handles the files one after the other in the order of the
  list: its events are, file by file, the status line, the progress reset to 0 and then
  the events of that file's conversion. It closes with status "Idle", the progress reset
  and the summary "Converted: K, Failed: N - K", where N is the number of files and K
  the number of files whose conversion returned \<open>True\<close>.
\<close>

theorem convert_files_summary:
  "convert_files e files system =
     (Inr (),
      concat (map (\<lambda>(i, f). file_events e system (length files) i f)
                  (zip [1 ..< 1 + length files] files))
      @ [SetStatus ''Idle'', ProgressBar 0, PercentVar ''0.0%'', PercentVar [],
         ShowInfo ''Batch Complete''
           (summary system (length (filter (conversion_ok e system) files))
                           (length files - length (filter (conversion_ok e system) files)))])"
proof -
  have "length (filter (\<lambda>f. \<not> conversion_ok e system f) files)
          = length files - length (filter (conversion_ok e system) files)"
    using sum_length_filter_compl[of "conversion_ok e system" files] by simp
  then show ?thesis
    by (simp add: convert_files_def convert_loop_eq update_status_def set_progress_zero)
qed

theorem convert_files_summary_witness:
  "last (snd (convert_files demo_env [''C:/roms/good.iso'', ''C:/roms/bad.cue'', ''C:/roms/game.cue'']
                ''Sega Saturn''))
     = ShowInfo ''Batch Complete'' (''Sega Saturn'' @ [CHR 0x0A] @ ''Converted: 2'' @ [CHR 0x0A] @ ''Failed: 1'')"
proof -
  have k: "length (filter (conversion_ok demo_env ''Sega Saturn'')
             [''C:/roms/good.iso'', ''C:/roms/bad.cue'', ''C:/roms/game.cue'']) = 2"
    by code_simp
  have s: "summary ''Sega Saturn'' 2 (3 - 2)
             = ''Sega Saturn'' @ [CHR 0x0A] @ ''Converted: 2'' @ [CHR 0x0A] @ ''Failed: 1''"
    by code_simp
  have "last (snd (convert_files demo_env [''C:/roms/good.iso'', ''C:/roms/bad.cue'', ''C:/roms/game.cue'']
                ''Sega Saturn''))
        = ShowInfo ''Batch Complete'' (summary ''Sega Saturn'' 2 (3 - 2))"
    unfolding convert_files_summary k by simp
  then show ?thesis unfolding s .
qed
section \<open>Folder selection: proofs\<close>

text \<open>
  Claim C9. When a folder is chosen and none of the patterns of the selected system's
  extensions matches a file in it, \<open>select_batch\<close> shows the warning and does nothing
  else: no worker thread is started and no process is launched.
\<close>

theorem select_batch_no_files:
  assumes "folder \<noteq> []"
    and "\<forall>ext \<in> set (snd (build_filetypes system)). glob e (path_join e folder (''*'' @ ext)) = []"
  shows "select_batch e system folder = [ShowWarning ''No files'' ''No .cue/.gdi/.iso files found.'']"
proof -
  have "batch_files e system folder = []"
    using assms(2) by (simp add: batch_files_def)
  then show ?thesis using assms(1) by (simp add: select_batch_def)
qed

theorem select_batch_no_files_witness:
  "select_batch demo_env ''Sega Dreamcast'' ''C:/empty''
     = [ShowWarning ''No files'' ''No .cue/.gdi/.iso files found.'']"
proof -
  have a: "''C:/empty'' \<noteq> []" by simp
  have b: "\<forall>ext \<in> set (snd (build_filetypes ''Sega Dreamcast'')).
             glob demo_env (path_join demo_env ''C:/empty'' (''*'' @ ext)) = []"
    by code_simp
  from select_batch_no_files[OF a b] show ?thesis .
qed

section \<open>The pattern and its matches\<close>

lemma dot_not_digit: "\<not> is_digit CHR ''.''"
  by (simp add: is_digit_def)
lemma pct_not_digit: "\<not> is_digit CHR ''%''"
  by (simp add: is_digit_def)
lemma pct_not_space: "\<not> is_space CHR ''%''"
  by (simp add: is_space_def)
lemma dot_not_space: "\<not> is_space CHR ''.''"
  by (simp add: is_space_def)
lemma space_not_digit: "is_space c \<Longrightarrow> \<not> is_digit c"
  by (auto simp: is_space_def is_digit_def Let_def)

lemma takeWhile_stop:
  "list_all P xs \<Longrightarrow> ys = [] \<or> \<not> P (hd ys) \<Longrightarrow> takeWhile P (xs @ ys) = xs"
  by (cases ys) (auto simp: list_all_iff takeWhile_append)

lemma match_at_sound:
  assumes "match_at s = Some (g, n)"
  shows "\<exists>m rest. s = m @ rest \<and> re_lang g m \<and> n = length m"
proof -
  define ds where "ds = take 3 (takeWhile is_digit s)"
  define r1 where "r1 = drop (length ds) s"
  define fr where "fr = (case r1 of [] \<Rightarrow> [] | c # r \<Rightarrow>
                         if c = CHR ''.'' \<and> takeWhile is_digit r \<noteq> []
                         then c # takeWhile is_digit r else [])"
  define r2 where "r2 = drop (length fr) r1"
  define ws where "ws = takeWhile is_space r2"
  define r3 where "r3 = drop (length ws) r2"
  have m: "match_at s = (if ds = [] then None else
              (case r3 of [] \<Rightarrow> None
               | c # _ \<Rightarrow> if c = CHR ''%''
                   then Some (ds @ fr, length ds + length fr + length ws + 1) else None))"
    unfolding match_at_def Let_def ds_def r1_def fr_def r2_def ws_def r3_def by (rule refl)
  from assms m have ds_ne: "ds \<noteq> []" by (auto split: if_splits)
  from assms m ds_ne obtain rest where r3: "r3 = CHR ''%'' # rest"
    and g: "g = ds @ fr" and n: "n = length ds + length fr + length ws + 1"
    by (auto split: list.splits if_splits)
  have ds_pre: "take (length ds) s = ds"
  proof -
    have "prefix ds (takeWhile is_digit s)" unfolding ds_def by (rule take_is_prefix)
    moreover have "prefix (takeWhile is_digit s) s" by (metis prefixI takeWhile_dropWhile_id)
    ultimately have "prefix ds s" by (rule prefix_order.trans)
    then show ?thesis by (auto simp: prefix_def)
  qed
  have s1: "s = ds @ r1" unfolding r1_def using ds_pre by (metis append_take_drop_id)
  have tk: "\<And>P (xs::string). take (length (takeWhile P xs)) xs = takeWhile P xs"
    by (rule takeWhile_eq_take[symmetric])
  have fr_pre: "take (length fr) r1 = fr"
    unfolding fr_def
    by (cases r1) (simp_all add: tk)
  have s2: "r1 = fr @ r2" unfolding r2_def using fr_pre by (metis append_take_drop_id)
  have s3: "r2 = ws @ r3" unfolding r3_def ws_def
    by (metis append_take_drop_id tk)
  have dig: "list_all is_digit ds"
    unfolding ds_def list_all_iff by (auto dest: in_set_takeD set_takeWhileD)
  have len: "length ds \<le> 3" unfolding ds_def by simp
  have frs: "fr = [] \<or> (\<exists>fd. fr = CHR ''.'' # fd \<and> fd \<noteq> [] \<and> list_all is_digit fd)"
    unfolding fr_def list_all_iff
    by (cases r1) (auto dest: set_takeWhileD)
  have sp: "list_all is_space ws"
    unfolding ws_def list_all_iff by (auto dest: set_takeWhileD)
  have "s = (ds @ fr @ ws @ ''%'') @ rest" using s1 s2 s3 r3 by simp
  moreover have "re_lang g (ds @ fr @ ws @ ''%'')"
    unfolding re_lang_def using g ds_ne len dig frs sp by blast
  moreover have "n = length (ds @ fr @ ws @ ''%'')" using n by simp
  ultimately show ?thesis by blast
qed

lemma match_at_complete:
  assumes "re_lang g m"
  shows "match_at (m @ rest) = Some (g, length m)"
proof -
  from assms obtain ds fr ws where m: "m = ds @ fr @ ws @ ''%''" and g: "g = ds @ fr"
    and ds_ne: "ds \<noteq> []" and len: "length ds \<le> 3" and dig: "list_all is_digit ds"
    and frs: "fr = [] \<or> (\<exists>fd. fr = CHR ''.'' # fd \<and> fd \<noteq> [] \<and> list_all is_digit fd)"
    and sp: "list_all is_space ws"
    unfolding re_lang_def by blast
  define s where "s = m @ rest"
  define t3 where "t3 = CHR ''%'' # rest"
  define t2 where "t2 = ws @ t3"
  define t1 where "t1 = fr @ t2"
  have s: "s = ds @ t1" by (simp add: s_def m t1_def t2_def t3_def)
  have t2_hd: "\<not> is_digit (hd t2)"
    using sp by (cases ws) (auto simp: t2_def t3_def pct_not_digit space_not_digit)
  have t1_hd: "t1 = [] \<or> \<not> is_digit (hd t1)"
    using frs t2_hd by (auto simp: t1_def dot_not_digit)
  have tw: "takeWhile is_digit s = ds"
    unfolding s by (rule takeWhile_stop[OF dig t1_hd])
  have a: "take 3 (takeWhile is_digit s) = ds" using tw len by simp
  have b: "drop (length ds) s = t1" by (simp add: s)
  have c: "(case t1 of [] \<Rightarrow> [] | c # r \<Rightarrow>
                         if c = CHR ''.'' \<and> takeWhile is_digit r \<noteq> []
                         then c # takeWhile is_digit r else []) = fr"
  proof (cases "fr = []")
    case True
    have "t2 \<noteq> []" by (simp add: t2_def t3_def)
    moreover have "hd t2 \<noteq> CHR ''.''"
      using sp by (cases ws) (auto simp: t2_def t3_def dot_not_space)
    ultimately show ?thesis using True by (cases t2) (auto simp: t1_def)
  next
    case False
    with frs obtain fd where fd: "fr = CHR ''.'' # fd" "fd \<noteq> []" "list_all is_digit fd" by blast
    have "takeWhile is_digit (fd @ t2) = fd"
      by (rule takeWhile_stop[OF fd(3)]) (simp add: t2_hd)
    then show ?thesis using fd by (simp add: t1_def)
  qed
  have d: "drop (length fr) t1 = t2" by (simp add: t1_def)
  have e: "takeWhile is_space t2 = ws"
    unfolding t2_def by (rule takeWhile_stop[OF sp]) (simp add: t3_def pct_not_space)
  have f: "drop (length ws) t2 = t3" by (simp add: t2_def)
  have "match_at s = Some (ds @ fr, length ds + length fr + length ws + 1)"
    unfolding match_at_def Let_def a b c d e f using ds_ne by (simp add: t3_def)
  then show ?thesis unfolding s_def using g m by simp
qed

lemma match_at_iff:
  "match_at s = Some (g, n) \<longleftrightarrow> (\<exists>m rest. s = m @ rest \<and> re_lang g m \<and> n = length m)"
  using match_at_sound match_at_complete by blast












section \<open>Chunking of the stream: proofs\<close>


















text \<open>The exception is needed: in the second example stream the cut breaks the token,
  the loop reports 2.0 and a scan of the whole stream reports 12.0.\<close>

lemma straddling_token_example:
  "cut_points 0 [] broken_chunks = [113]
   \<and> finditer 0 (concat broken_chunks) = [(112, 130, ''12'')]
   \<and> straddles (112, 130, ''12'') 113
   \<and> callback_values (fst (stream_loop (Some spy) [] (map Data broken_chunks))) = [Fin 2]
   \<and> callback_values (scan_buffer (Some spy) (concat broken_chunks)) = [Fin 12]"
  by code_simp

end
